theory Spec2Isabelle
  imports Main
begin

section \<open>Data model of image-formats-support\<close>

text \<open>
  The three probed formats. The source repeats one block of code per format
  (AVIF, WebP, JPEG XL); the blocks differ only in the format's field and sample
  image, so the model indexes them by this type.
\<close>

datatype format = Avif | Webp | Jxl

text \<open>
  \<^verbatim>\<open>ImageFormatConfig\<close>: every field is optional in the source
  (\<^verbatim>\<open>avif?: boolean\<close>, ..., \<^verbatim>\<open>delay?: number\<close>); \<open>None\<close> is \<^verbatim>\<open>undefined\<close>.
  Times and delays are whole milliseconds, as \<^verbatim>\<open>Date.now()\<close> returns them.
\<close>

record ImageFormatConfig =
  opt_avif :: "bool option"
  opt_webp :: "bool option"
  opt_jxl :: "bool option"
  opt_delay :: "int option"

record ImageFormatFullConfig =
  avif :: bool
  webp :: bool
  jxl :: bool
  delay :: int

text \<open>
  \<^verbatim>\<open>ImageFormatResult\<close>: \<open>None\<close> is \<^verbatim>\<open>null\<close>. The fields are
  prefixed with \<open>r_\<close> to keep them apart from the config's fields of the same name.
\<close>

record ImageFormatResult =
  r_avif :: "bool option"
  r_webp :: "bool option"
  r_jxl :: "bool option"
  time :: int

text \<open>
  The state of one detection run: the \<^verbatim>\<open>result\<close> object the closures share, the
  platform's queues (callbacks given to \<^verbatim>\<open>setTimeout\<close> that have not run yet, with
  their delay; images whose \<^verbatim>\<open>onload\<close>/\<^verbatim>\<open>onerror\<close> handlers are registered and
  that have not settled yet), and two histories: \<open>calls\<close> is the list of results
  the callback was invoked with, in order (each a snapshot taken at the invocation),
  \<open>measured\<close> the list of the values of \<^verbatim>\<open>diff\<close> computed by \<^verbatim>\<open>callbackIfEnd\<close>.
\<close>

record detection =
  result :: ImageFormatResult
  timers :: "(format \<times> int) list"
  images :: "format list"
  calls :: "ImageFormatResult list"
  measured :: "int list"

fun enabled :: "ImageFormatFullConfig \<Rightarrow> format \<Rightarrow> bool" where
  "enabled c Avif = avif c"
| "enabled c Webp = webp c"
| "enabled c Jxl = jxl c"

fun verdict :: "ImageFormatResult \<Rightarrow> format \<Rightarrow> bool option" where
  "verdict r Avif = r_avif r"
| "verdict r Webp = r_webp r"
| "verdict r Jxl = r_jxl r"

text \<open>\<^verbatim>\<open>result.avif = b\<close>, \<^verbatim>\<open>result.webp = b\<close>, \<^verbatim>\<open>result.jxl = b\<close>.\<close>

fun assign :: "format \<Rightarrow> bool \<Rightarrow> ImageFormatResult \<Rightarrow> ImageFormatResult" where
  "assign Avif b r = r\<lparr>r_avif := Some b\<rparr>"
| "assign Webp b r = r\<lparr>r_webp := Some b\<rparr>"
| "assign Jxl b r = r\<lparr>r_jxl := Some b\<rparr>"

section \<open>The completion aggregator\<close>

text \<open>
  \<^verbatim>\<open>callbackIfEnd(config, result, start, callback)\<close>. \<open>now\<close> is what \<^verbatim>\<open>Date.now()\<close>
  returns inside the call. Invoking the callback appends the result to \<open>calls\<close>.
  The second component is the returned boolean.
\<close>

definition callbackIfEnd ::
  "ImageFormatFullConfig \<Rightarrow> int \<Rightarrow> int \<Rightarrow> detection \<Rightarrow> detection \<times> bool" where
  "callbackIfEnd config start now s =
     (let diff = now - start;
          r = (if diff > time (result s) then (result s)\<lparr>time := diff\<rparr> else result s);
          s' = s\<lparr>result := r, measured := measured s @ [diff]\<rparr>
      in if (\<not> avif config \<or> r_avif r \<noteq> None) \<and>
            (\<not> webp config \<or> r_webp r \<noteq> None) \<and>
            (\<not> jxl config \<or> r_jxl r \<noteq> None)
         then (s'\<lparr>calls := calls s' @ [r]\<rparr>, True)
         else (s', False))"

section \<open>The probe dispatcher\<close>

text \<open>
  The defaulting of the optional config:
  \<^verbatim>\<open>config.avif === undefined || config.avif\<close> and \<^verbatim>\<open>config.delay ?? 0\<close>.
\<close>

definition fullConfigOf :: "ImageFormatConfig option \<Rightarrow> ImageFormatFullConfig" where
  "fullConfigOf config =
     (case config of
        Some c \<Rightarrow>
          \<lparr>avif = (case opt_avif c of None \<Rightarrow> True | Some b \<Rightarrow> b),
           webp = (case opt_webp c of None \<Rightarrow> True | Some b \<Rightarrow> b),
           jxl = (case opt_jxl c of None \<Rightarrow> True | Some b \<Rightarrow> b),
           delay = (case opt_delay c of None \<Rightarrow> 0 | Some d \<Rightarrow> d)\<rparr>
      | None \<Rightarrow> \<lparr>avif = True, webp = True, jxl = True, delay = 0\<rparr>)"

definition initial :: detection where
  "initial =
     \<lparr>result = \<lparr>r_avif = None, r_webp = None, r_jxl = None, time = 0\<rparr>,
      timers = [], images = [], calls = [], measured = []\<rparr>"

text \<open>
  One of the three blocks of \<^verbatim>\<open>detectImageFormats\<close>: an enabled format gets a timer
  with the configured delay, a disabled one an immediate check of the aggregator.
  \<open>now f\<close> is what \<^verbatim>\<open>Date.now()\<close> returns in that check.
\<close>

definition probe ::
  "ImageFormatFullConfig \<Rightarrow> int \<Rightarrow> (format \<Rightarrow> int) \<Rightarrow> format \<Rightarrow> detection \<Rightarrow> detection" where
  "probe fullConfig start now f s =
     (if enabled fullConfig f
      then s\<lparr>timers := timers s @ [(f, delay fullConfig)]\<rparr>
      else fst (callbackIfEnd fullConfig start (now f) s))"

text \<open>
  The synchronous part of \<^verbatim>\<open>detectImageFormats(callback, config)\<close>: \<open>start\<close> is the
  first reading of the clock. The value is the state when the function returns.
\<close>

definition detectImageFormats ::
  "ImageFormatConfig option \<Rightarrow> int \<Rightarrow> (format \<Rightarrow> int) \<Rightarrow> detection" where
  "detectImageFormats config start now =
     (let fullConfig = fullConfigOf config
      in probe fullConfig start now Jxl
           (probe fullConfig start now Webp
              (probe fullConfig start now Avif initial)))"

section \<open>The platform's events\<close>

text \<open>
  What happens after \<^verbatim>\<open>detectImageFormats\<close> has returned: a timer's callback runs
  (it creates the image and registers both handlers), or a registered image settles
  with \<^verbatim>\<open>load\<close> or \<^verbatim>\<open>error\<close>; an image settles once. Each event carries the time
  at which it happens, which is what \<^verbatim>\<open>Date.now()\<close> returns in its handler. An event
  that the platform cannot deliver in a state (no such timer, no such image) yields
  \<open>None\<close>. The order of the events is not restricted.
\<close>

datatype event = Timeout format int | Onload format int | Onerror format int

fun step :: "ImageFormatFullConfig \<Rightarrow> int \<Rightarrow> event \<Rightarrow> detection \<Rightarrow> detection option" where
  "step fullConfig start (Timeout f t) s =
     (if f \<in> fst ` set (timers s)
      then Some (s\<lparr>timers := filter (\<lambda>p. fst p \<noteq> f) (timers s), images := images s @ [f]\<rparr>)
      else None)"
| "step fullConfig start (Onload f t) s =
     (if f \<in> set (images s)
      then Some (fst (callbackIfEnd fullConfig start t
                   (s\<lparr>images := removeAll f (images s), result := assign f True (result s)\<rparr>)))
      else None)"
| "step fullConfig start (Onerror f t) s =
     (if f \<in> set (images s)
      then Some (fst (callbackIfEnd fullConfig start t
                   (s\<lparr>images := removeAll f (images s), result := assign f False (result s)\<rparr>)))
      else None)"

fun run :: "ImageFormatFullConfig \<Rightarrow> int \<Rightarrow> event list \<Rightarrow> detection \<Rightarrow> detection option" where
  "run fullConfig start [] s = Some s"
| "run fullConfig start (e # es) s =
     (case step fullConfig start e s of
        None \<Rightarrow> None
      | Some s' \<Rightarrow> run fullConfig start es s')"

text \<open>A detection run: the call, then the events \<open>evs\<close> in this order.\<close>

definition detect ::
  "ImageFormatConfig option \<Rightarrow> int \<Rightarrow> (format \<Rightarrow> int) \<Rightarrow> event list \<Rightarrow> detection option" where
  "detect config start now evs =
     run (fullConfigOf config) start evs (detectImageFormats config start now)"

text \<open>No timer is waiting and no image is loading: nothing more can happen.\<close>

definition finished :: "detection \<Rightarrow> bool" where
  "finished s = (timers s = [] \<and> images s = [])"

section \<open>The default styling helper\<close>

text \<open>\<^verbatim>\<open>classList.add(c)\<close>: a token list holds a token once.\<close>

definition classList_add :: "string \<Rightarrow> string list \<Rightarrow> string list" where
  "classList_add c body = (if c \<in> set body then body else body @ [c])"

text \<open>
  The completion handler of \<^verbatim>\<open>detectImageFormatsDefault\<close>, on the class list of
  \<^verbatim>\<open>_document.body\<close>.
\<close>

definition defaultCallback :: "ImageFormatResult \<Rightarrow> string list \<Rightarrow> string list" where
  "defaultCallback r body =
     (let b1 = (case r_avif r of None \<Rightarrow> body
                | Some v \<Rightarrow> classList_add (if v then ''has-avif'' else ''no-avif'') body);
          b2 = (case r_webp r of None \<Rightarrow> b1
                | Some v \<Rightarrow> classList_add (if v then ''has-webp'' else ''no-webp'') b1)
      in (case r_jxl r of None \<Rightarrow> b2
          | Some v \<Rightarrow> classList_add (if v then ''has-jxl'' else ''no-jxl'') b2))"

text \<open>
  \<^verbatim>\<open>detectImageFormatsDefault(_document)\<close> followed by the events \<open>evs\<close>: the class
  list of the body afterwards.
\<close>

definition detectImageFormatsDefault ::
  "int \<Rightarrow> (format \<Rightarrow> int) \<Rightarrow> event list \<Rightarrow> string list \<Rightarrow> string list option" where
  "detectImageFormatsDefault start now evs body =
     map_option (\<lambda>s. foldl (\<lambda>b r. defaultCallback r b) body (calls s))
       (detect (Some \<lparr>opt_avif = Some True, opt_webp = Some True, opt_jxl = Some True,
                      opt_delay = Some 0\<rparr>) start now evs)"

section \<open>Notions used to state the properties\<close>

definition anyEnabled :: "ImageFormatFullConfig \<Rightarrow> bool" where
  "anyEnabled c = (avif c \<or> webp c \<or> jxl c)"

text \<open>The formats with a timer waiting, and those whose probe has not settled.\<close>

definition waiting :: "detection \<Rightarrow> format set" where
  "waiting s = fst ` set (timers s)"

definition pending :: "detection \<Rightarrow> format set" where
  "pending s = waiting s \<union> set (images s)"

text \<open>
  The invariant of a run: the probes in flight are those of the enabled formats
  without a verdict, and no format has both a timer and an image.
\<close>

definition wf :: "ImageFormatFullConfig \<Rightarrow> detection \<Rightarrow> bool" where
  "wf c s = (waiting s \<union> set (images s) = {f. enabled c f \<and> verdict (result s) f = None} \<and>
             waiting s \<inter> set (images s) = {})"

fun time_of :: "event \<Rightarrow> int" where
  "time_of (Timeout f t) = t"
| "time_of (Onload f t) = t"
| "time_of (Onerror f t) = t"

fun is_settle :: "event \<Rightarrow> bool" where
  "is_settle (Timeout f t) = False"
| "is_settle (Onload f t) = True"
| "is_settle (Onerror f t) = True"





text \<open>
  The callback has been invoked once if the run is over, and not at all before.
\<close>

definition once :: "detection \<Rightarrow> bool" where
  "once s = (calls s = (if finished s then [result s] else []))"


definition nonneg :: "detection \<Rightarrow> bool" where
  "nonneg s = (0 \<le> time (result s) \<and> (\<forall>r\<in>set (calls s). 0 \<le> time r))"

definition tracked :: "detection \<Rightarrow> bool" where
  "tracked s = (time (result s) = Max (set (0 # measured s)))"

definition definite :: "ImageFormatFullConfig \<Rightarrow> detection \<Rightarrow> bool" where
  "definite c s = (\<forall>r\<in>set (calls s). \<forall>g. enabled c g \<longrightarrow> verdict r g \<noteq> None)"

definition untouched :: "ImageFormatFullConfig \<Rightarrow> detection \<Rightarrow> bool" where
  "untouched c s = (\<forall>g. \<not> enabled c g \<longrightarrow>
      verdict (result s) g = None \<and> (\<forall>r\<in>set (calls s). verdict r g = None))"

text \<open>
  The class names as the documentation gives them: \<^verbatim>\<open>has-<format>\<close> when the
  format is supported, \<^verbatim>\<open>no-<format>\<close> when it is not.
\<close>

fun format_name :: "format \<Rightarrow> string" where
  "format_name Avif = ''avif''"
| "format_name Webp = ''webp''"
| "format_name Jxl = ''jxl''"

definition marker :: "format \<Rightarrow> bool \<Rightarrow> string" where
  "marker f b = (if b then ''has-'' else ''no-'') @ format_name f"

text \<open>
  An example run: AVIF by default, WebP disabled, JPEG XL enabled, a delay of 5 ms;
  the call starts at 100, the check for the skipped WebP reads 101, the timers
  fire at 105 and 106, JPEG XL fails to decode at 110 and AVIF decodes at 112.
\<close>

definition example_config :: "ImageFormatConfig option" where
  "example_config =
     Some \<lparr>opt_avif = None, opt_webp = Some False, opt_jxl = Some True, opt_delay = Some 5\<rparr>"

definition example_events :: "event list" where
  "example_events = [Timeout Jxl 105, Timeout Avif 106, Onerror Jxl 110, Onload Avif 112]"

definition example_result :: ImageFormatResult where
  "example_result = \<lparr>r_avif = Some True, r_webp = None, r_jxl = Some False, time = 12\<rparr>"

definition example_state :: detection where
  "example_state =
     \<lparr>result = example_result, timers = [], images = [], calls = [example_result],
      measured = [1, 10, 12]\<rparr>"

section \<open>Basic facts\<close>

lemma run_append:
  "run c st (es @ es') s = (case run c st es s of None \<Rightarrow> None | Some s' \<Rightarrow> run c st es' s')"
  by (induction es arbitrary: s) (auto split: option.splits)

lemma run_invariant:
  assumes "run c st evs s = Some s'" and "P s"
    and "\<And>e s s'. P s \<Longrightarrow> step c st e s = Some s' \<Longrightarrow> P s'"
  shows "P s'"
  using assms(1,2) by (induction evs arbitrary: s) (auto split: option.splits intro: assms(3))

lemma format_all: "(\<forall>g. P g) = (P Avif \<and> P Webp \<and> P Jxl)"
  by (metis format.exhaust)

lemma format_ex: "(\<exists>g. P g) = (P Avif \<or> P Webp \<or> P Jxl)"
  by (metis format.exhaust)

lemma anyEnabled_iff: "anyEnabled c = (\<exists>g. enabled c g)"
  by (simp add: anyEnabled_def format_ex)

subsection \<open>What one check of the aggregator does\<close>

lemma callbackIfEnd_timers [simp]: "timers (fst (callbackIfEnd c st t s)) = timers s"
  by (simp add: callbackIfEnd_def Let_def)

lemma callbackIfEnd_images [simp]: "images (fst (callbackIfEnd c st t s)) = images s"
  by (simp add: callbackIfEnd_def Let_def)

lemma callbackIfEnd_verdict [simp]:
  "verdict (result (fst (callbackIfEnd c st t s))) g = verdict (result s) g"
  by (cases g) (simp_all add: callbackIfEnd_def Let_def)

lemma callbackIfEnd_time [simp]:
  "time (result (fst (callbackIfEnd c st t s))) = max (time (result s)) (t - st)"
  by (simp add: callbackIfEnd_def Let_def max_def)

lemma callbackIfEnd_measured [simp]:
  "measured (fst (callbackIfEnd c st t s)) = measured s @ [t - st]"
  by (simp add: callbackIfEnd_def Let_def)

lemma callbackIfEnd_fires:
  "snd (callbackIfEnd c st t s) = (\<forall>g. enabled c g \<longrightarrow> verdict (result s) g \<noteq> None)"
  by (simp add: callbackIfEnd_def Let_def format_all)

lemma callbackIfEnd_calls:
  "calls (fst (callbackIfEnd c st t s)) =
     (if snd (callbackIfEnd c st t s)
      then calls s @ [result (fst (callbackIfEnd c st t s))] else calls s)"
  by (simp add: callbackIfEnd_def Let_def)

lemma waiting_callbackIfEnd [simp]: "waiting (fst (callbackIfEnd c st t s)) = waiting s"
  by (simp add: waiting_def)

lemma wf_callbackIfEnd [simp]: "wf c (fst (callbackIfEnd c st t s)) = wf c s"
  by (simp add: wf_def)

lemma verdict_assign [simp]:
  "verdict (assign f b r) g = (if g = f then Some b else verdict r g)"
  by (cases f; cases g) simp_all

lemma time_assign [simp]: "time (assign f b r) = time r"
  by (cases f) simp_all

lemma finished_pending: "finished s = (pending s = {})"
  by (auto simp: finished_def pending_def waiting_def)

lemma wf_fires: "wf c s \<Longrightarrow> snd (callbackIfEnd c st t s) = finished s"
  by (auto simp: callbackIfEnd_fires wf_def finished_pending pending_def)

subsection \<open>What one event does\<close>

lemma waiting_filter: "fst ` set (filter (\<lambda>p. fst p \<noteq> f) xs) = fst ` set xs - {f}"
  by (induction xs) auto

lemma step_Timeout:
  assumes "step c st (Timeout f t) s = Some s'"
  shows "f \<in> waiting s" "waiting s' = waiting s - {f}" "set (images s') = insert f (set (images s))"
    "result s' = result s" "calls s' = calls s" "measured s' = measured s"
  using assms by (auto simp: waiting_def waiting_filter split: if_splits)

lemma step_settle_eq:
  assumes "step c st e s = Some s'" "e = Onload f t \<and> b = True \<or> e = Onerror f t \<and> b = False"
  shows "f \<in> set (images s) \<and>
         s' = fst (callbackIfEnd c st t
                 (s\<lparr>images := removeAll f (images s), result := assign f b (result s)\<rparr>))"
  using assms by (auto split: if_splits)

lemma step_settle:
  assumes "step c st e s = Some s'" "e = Onload f t \<and> b = True \<or> e = Onerror f t \<and> b = False"
  shows "f \<in> set (images s)" "waiting s' = waiting s" "set (images s') = set (images s) - {f}"
    "verdict (result s') g = (if g = f then Some b else verdict (result s) g)"
    "time (result s') = max (time (result s)) (t - st)"
    "measured s' = measured s @ [t - st]"
  using step_settle_eq [OF assms] by (simp_all add: waiting_def)

lemma wf_step:
  assumes "wf c s" "step c st e s = Some s'"
  shows "wf c s'"
proof (cases e)
  case (Timeout f t)
  from step_Timeout [OF assms(2) [unfolded Timeout]] assms(1) show ?thesis
    unfolding wf_def by auto
next
  case (Onload f t)
  from step_settle [OF assms(2), of f t True] Onload assms(1) show ?thesis
    unfolding wf_def by (auto split: if_splits)
next
  case (Onerror f t)
  from step_settle [OF assms(2), of f t False] Onerror assms(1) show ?thesis
    unfolding wf_def by (auto split: if_splits)
qed

lemma wf_dispatch: "wf (fullConfigOf config) (detectImageFormats config st now)"
  by (simp add: wf_def waiting_def detectImageFormats_def probe_def initial_def Let_def
      callbackIfEnd_def set_eq_iff format_all)

subsection \<open>The state when the call returns\<close>

lemma calls_dispatch:
  "calls (detectImageFormats config st now) = [] \<longleftrightarrow> anyEnabled (fullConfigOf config)"
  by (simp add: detectImageFormats_def probe_def callbackIfEnd_def initial_def Let_def anyEnabled_def)

lemma dispatch_not_finished:
  "anyEnabled (fullConfigOf config) \<Longrightarrow> \<not> finished (detectImageFormats config st now)"
  by (auto simp add: detectImageFormats_def probe_def finished_def anyEnabled_def Let_def)

subsection \<open>The callback is invoked when the last probe settles\<close>

lemma finished_callbackIfEnd [simp]: "finished (fst (callbackIfEnd c st t s)) = finished s"
  by (simp add: finished_def)

lemma once_settle:
  assumes "wf c s" "once s" "step c st e s = Some s'"
    and e: "e = Onload f t \<and> b = True \<or> e = Onerror f t \<and> b = False"
  shows "once s'"
proof -
  define s2 where "s2 = s\<lparr>images := removeAll f (images s), result := assign f b (result s)\<rparr>"
  from step_settle_eq [OF assms(3) e]
  have f: "f \<in> set (images s)" and s': "s' = fst (callbackIfEnd c st t s2)"
    by (simp_all add: s2_def)
  from f have "\<not> finished s" by (auto simp: finished_def)
  with assms(2) have "calls s2 = []" by (simp add: once_def s2_def)
  moreover have "wf c s'" using assms(1,3) by (rule wf_step)
  then have "snd (callbackIfEnd c st t s2) = finished s2"
    unfolding s' by (simp add: wf_fires)
  ultimately show ?thesis
    by (simp add: once_def s' callbackIfEnd_calls)
qed

lemma once_step:
  assumes "wf c s" "once s" "step c st e s = Some s'"
  shows "once s'"
proof (cases e)
  case (Timeout f t)
  from step_Timeout [OF assms(3) [unfolded Timeout]] assms(2) show ?thesis
    by (auto simp: once_def finished_pending pending_def)
next
  case (Onload f t)
  then show ?thesis using once_settle [OF assms, of f t True] by simp
next
  case (Onerror f t)
  then show ?thesis using once_settle [OF assms, of f t False] by simp
qed

lemma once_detect:
  assumes "anyEnabled (fullConfigOf config)" "detect config st now evs = Some s"
  shows "once s"
proof -
  let ?c = "fullConfigOf config"
  have "wf ?c s \<and> once s"
  proof (rule run_invariant [where P = "\<lambda>s. wf ?c s \<and> once s"])
    show "run ?c st evs (detectImageFormats config st now) = Some s"
      using assms(2) by (simp add: detect_def)
    show "wf ?c (detectImageFormats config st now) \<and> once (detectImageFormats config st now)"
      using assms(1) by (simp add: wf_dispatch once_def dispatch_not_finished calls_dispatch)
    show "\<And>e s s'. wf ?c s \<and> once s \<Longrightarrow> step ?c st e s = Some s' \<Longrightarrow> wf ?c s' \<and> once s'"
      using wf_step once_step by blast
  qed
  then show ?thesis ..
qed

subsection \<open>Every run can be brought to its end\<close>

lemma run_timeouts:
  "distinct fs \<Longrightarrow> set fs \<subseteq> waiting s \<Longrightarrow>
     \<exists>s'. run c st (map (\<lambda>f. Timeout f t) fs) s = Some s' \<and>
          waiting s' = waiting s - set fs \<and> images s' = images s @ fs"
proof (induction fs arbitrary: s)
  case Nil
  then show ?case by simp
next
  case (Cons f fs)
  define s1 where "s1 = s\<lparr>timers := filter (\<lambda>p. fst p \<noteq> f) (timers s), images := images s @ [f]\<rparr>"
  from Cons.prems have st: "step c st (Timeout f t) s = Some s1"
    by (simp add: s1_def waiting_def)
  have w1: "waiting s1 = waiting s - {f}" and i1: "images s1 = images s @ [f]"
    using waiting_filter [of f "timers s"] by (simp_all add: s1_def waiting_def del: set_filter)
  from Cons.prems have "distinct fs" "set fs \<subseteq> waiting s1"
    by (auto simp: w1)
  from Cons.IH [OF this] obtain s' where
    "run c st (map (\<lambda>f. Timeout f t) fs) s1 = Some s'"
    "waiting s' = waiting s1 - set fs" "images s' = images s1 @ fs"
    by blast
  with st w1 i1 show ?case by auto
qed

lemma run_settles:
  "distinct gs \<Longrightarrow> set gs \<subseteq> set (images s) \<Longrightarrow>
     \<exists>s'. run c st (map (\<lambda>f. if ok f then Onload f t else Onerror f t) gs) s = Some s' \<and>
          set (images s') = set (images s) - set gs \<and> timers s' = timers s"
proof (induction gs arbitrary: s)
  case Nil
  then show ?case by simp
next
  case (Cons f gs)
  define s1 where "s1 = fst (callbackIfEnd c st t
      (s\<lparr>images := removeAll f (images s), result := assign f (ok f) (result s)\<rparr>))"
  from Cons.prems have st: "step c st (if ok f then Onload f t else Onerror f t) s = Some s1"
    by (simp add: s1_def)
  have i1: "set (images s1) = set (images s) - {f}" and t1: "timers s1 = timers s"
    by (simp_all add: s1_def)
  from Cons.prems have "distinct gs" "set gs \<subseteq> set (images s1)"
    by (auto simp: i1)
  from Cons.IH [OF this] obtain s' where
    "run c st (map (\<lambda>f. if ok f then Onload f t else Onerror f t) gs) s1 = Some s'"
    "set (images s') = set (images s1) - set gs" "timers s' = timers s1"
    by blast
  with st i1 t1 show ?case by auto
qed


lemma can_finish: "\<exists>evs' s'. run c st evs' s = Some s' \<and> finished s'"
proof -
  define fs where "fs = remdups (map fst (timers s))"
  have "distinct fs" "set fs \<subseteq> waiting s"
    by (simp_all add: fs_def waiting_def)
  from run_timeouts [OF this, of c st 0]
  obtain s1 where s1: "run c st (map (\<lambda>f. Timeout f 0) fs) s = Some s1" "waiting s1 = {}"
    by (auto simp: fs_def waiting_def)
  define gs where "gs = remdups (images s1)"
  have "distinct gs" "set gs \<subseteq> set (images s1)"
    by (simp_all add: gs_def)
  from run_settles [OF this, of c st "\<lambda>f. True" 0]
  obtain s2 where s2: "run c st (map (\<lambda>f. Onload f 0) gs) s1 = Some s2"
    "set (images s2) = {}" "timers s2 = timers s1"
    by (auto simp: gs_def)
  from s1(2) s2(2,3) have "finished s2"
    by (simp add: finished_def waiting_def)
  moreover have "run c st (map (\<lambda>f. Timeout f 0) fs @ map (\<lambda>f. Onload f 0) gs) s = Some s2"
    by (simp only: run_append s1(1) s2(1) option.case)
  ultimately show ?thesis by blast
qed


subsection \<open>Properties kept by the checks and by the events\<close>

lemma in_calls_callbackIfEnd:
  assumes "r \<in> set (calls (fst (callbackIfEnd c st t s)))"
  shows "r \<in> set (calls s) \<or>
         r = result (fst (callbackIfEnd c st t s)) \<and> snd (callbackIfEnd c st t s)"
  using assms by (auto simp: callbackIfEnd_calls split: if_splits)

lemma probe_verdict [simp]: "verdict (result (probe c st now f s)) g = verdict (result s) g"
  by (simp add: probe_def)

text \<open>Properties of the logged results that each check of the aggregator keeps.\<close>

lemma definite_callbackIfEnd: "definite c s \<Longrightarrow> definite c (fst (callbackIfEnd c st t s))"
  unfolding definite_def
  by (metis callbackIfEnd_fires callbackIfEnd_verdict in_calls_callbackIfEnd)

lemma untouched_callbackIfEnd: "untouched c s \<Longrightarrow> untouched c (fst (callbackIfEnd c st t s))"
  unfolding untouched_def
  by (metis callbackIfEnd_verdict in_calls_callbackIfEnd)

lemma nonneg_callbackIfEnd: "nonneg s \<Longrightarrow> nonneg (fst (callbackIfEnd c st t s))"
  unfolding nonneg_def
  by (metis callbackIfEnd_time in_calls_callbackIfEnd max.coboundedI1)

lemma Max_snoc: "Max (set (0 # m @ [d])) = max (Max (set (0 # m))) (d::int)"
proof -
  have "set (0 # m @ [d]) = insert d (set (0 # m))" by auto
  then show ?thesis by (simp add: max.commute)
qed

lemma tracked_callbackIfEnd: "tracked s \<Longrightarrow> tracked (fst (callbackIfEnd c st t s))"
  unfolding tracked_def using Max_snoc [of "measured s" "t - st"] by simp

lemma definite_probe: "definite c s \<Longrightarrow> definite c (probe c st now f s)"
  by (simp add: probe_def definite_callbackIfEnd) (simp add: definite_def)

lemma untouched_probe: "untouched c s \<Longrightarrow> untouched c (probe c st now f s)"
  by (simp add: probe_def untouched_callbackIfEnd) (simp add: untouched_def)

lemma nonneg_probe: "nonneg s \<Longrightarrow> nonneg (probe c st now f s)"
  by (simp add: probe_def nonneg_callbackIfEnd) (simp add: nonneg_def)

lemma tracked_probe: "tracked s \<Longrightarrow> tracked (probe c st now f s)"
  by (simp add: probe_def tracked_callbackIfEnd) (simp add: tracked_def)

lemma initial_props:
  "definite c initial" "untouched c initial" "nonneg initial" "tracked initial"
  by (simp_all add: definite_def untouched_def nonneg_def tracked_def initial_def format_all)

lemma dispatch_definite: "definite (fullConfigOf config) (detectImageFormats config st now)"
  unfolding detectImageFormats_def Let_def by (intro definite_probe initial_props)

lemma dispatch_untouched: "untouched (fullConfigOf config) (detectImageFormats config st now)"
  unfolding detectImageFormats_def Let_def by (intro untouched_probe initial_props)

lemma dispatch_nonneg: "nonneg (detectImageFormats config st now)"
  unfolding detectImageFormats_def Let_def by (intro nonneg_probe initial_props)

lemma dispatch_tracked: "tracked (detectImageFormats config st now)"
  unfolding detectImageFormats_def Let_def by (intro tracked_probe initial_props)

text \<open>The same properties across an event.\<close>

lemma step_cases:
  assumes "step c st e s = Some s'"
  obtains (timeout) f t where "e = Timeout f t" "f \<in> waiting s"
      "s' = s\<lparr>timers := filter (\<lambda>p. fst p \<noteq> f) (timers s), images := images s @ [f]\<rparr>"
  | (settle) f t b where "is_settle e" "time_of e = t" "f \<in> set (images s)"
      "s' = fst (callbackIfEnd c st t
               (s\<lparr>images := removeAll f (images s), result := assign f b (result s)\<rparr>))"
proof (cases e)
  case (Timeout f t)
  with assms timeout [of f t] show ?thesis
    by (simp add: waiting_def split: if_splits)
next
  case (Onload f t)
  with assms settle [of t f True] show ?thesis
    by (simp split: if_splits)
next
  case (Onerror f t)
  with assms settle [of t f False] show ?thesis
    by (simp split: if_splits)
qed

lemma definite_step:
  assumes "definite c s" "step c st e s = Some s'"
  shows "definite c s'"
  using assms(2)
proof (cases rule: step_cases)
  case (timeout f t)
  with assms(1) show ?thesis by (simp add: definite_def)
next
  case (settle f t b)
  from assms(1) have "definite c
      (s\<lparr>images := removeAll f (images s), result := assign f b (result s)\<rparr>)"
    by (simp add: definite_def)
  with settle(4) show ?thesis by (simp add: definite_callbackIfEnd)
qed

lemma nonneg_step:
  assumes "nonneg s" "step c st e s = Some s'"
  shows "nonneg s'"
  using assms(2)
proof (cases rule: step_cases)
  case (timeout f t)
  with assms(1) show ?thesis by (simp add: nonneg_def)
next
  case (settle f t b)
  from assms(1) have "nonneg
      (s\<lparr>images := removeAll f (images s), result := assign f b (result s)\<rparr>)"
    by (simp add: nonneg_def)
  with settle(4) show ?thesis by (simp add: nonneg_callbackIfEnd)
qed

lemma tracked_step:
  assumes "tracked s" "step c st e s = Some s'"
  shows "tracked s'"
  using assms(2)
proof (cases rule: step_cases)
  case (timeout f t)
  with assms(1) show ?thesis by (simp add: tracked_def)
next
  case (settle f t b)
  from assms(1) have "tracked
      (s\<lparr>images := removeAll f (images s), result := assign f b (result s)\<rparr>)"
    by (simp add: tracked_def)
  with settle(4) show ?thesis by (simp add: tracked_callbackIfEnd)
qed

lemma untouched_step:
  assumes "wf c s" "untouched c s" "step c st e s = Some s'"
  shows "untouched c s'"
  using assms(3)
proof (cases rule: step_cases)
  case (timeout f t)
  with assms(2) show ?thesis by (simp add: untouched_def)
next
  case (settle f t b)
  from assms(1) settle(3) have "enabled c f" by (auto simp: wf_def)
  with assms(2) have "untouched c
      (s\<lparr>images := removeAll f (images s), result := assign f b (result s)\<rparr>)"
    by (auto simp: untouched_def)
  with settle(4) show ?thesis by (simp add: untouched_callbackIfEnd)
qed

lemma time_step:
  assumes "step c st e s = Some s'"
  shows "time (result s) \<le> time (result s')"
  using assms by (cases rule: step_cases) simp_all

lemma time_run: "run c st evs s = Some s' \<Longrightarrow> time (result s) \<le> time (result s')"
proof (induction evs arbitrary: s)
  case Nil
  then show ?case by simp
next
  case (Cons e evs)
  then obtain s1 where "step c st e s = Some s1" "run c st evs s1 = Some s'"
    by (auto split: option.splits)
  with Cons.IH [of s1] time_step [of c st e s s1] show ?case by simp
qed






lemma props_detect:
  assumes "detect config st now evs = Some s"
  shows "definite (fullConfigOf config) s" "untouched (fullConfigOf config) s" "nonneg s" "tracked s"
proof -
  let ?c = "fullConfigOf config"
  from assms have r: "run ?c st evs (detectImageFormats config st now) = Some s"
    by (simp add: detect_def)
  from r dispatch_definite definite_step show "definite ?c s" by (rule run_invariant)
  from r dispatch_nonneg nonneg_step show "nonneg s" by (rule run_invariant)
  from r dispatch_tracked tracked_step show "tracked s" by (rule run_invariant)
  have "wf ?c s \<and> untouched ?c s"
  proof (rule run_invariant [OF r, where P = "\<lambda>s. wf ?c s \<and> untouched ?c s"])
    show "wf ?c (detectImageFormats config st now) \<and> untouched ?c (detectImageFormats config st now)"
      by (simp add: wf_dispatch dispatch_untouched)
    show "\<And>e s s'. wf ?c s \<and> untouched ?c s \<Longrightarrow> step ?c st e s = Some s' \<Longrightarrow>
        wf ?c s' \<and> untouched ?c s'"
      using wf_step untouched_step by blast
  qed
  then show "untouched ?c s" ..
qed

subsection \<open>The class names the default handler adds\<close>

lemma marker_inj: "(marker f b = marker g d) = (f = g \<and> b = d)"
  by (cases f; cases g; cases b; cases d) (simp_all add: marker_def)

lemma classList_add_appends:
  "\<exists>added. classList_add c body = body @ added \<and> set added = {c} - set body"
  by (auto simp: classList_add_def)

lemma defaultCallback_marker:
  "defaultCallback r body =
     (let b1 = (case verdict r Avif of None \<Rightarrow> body | Some v \<Rightarrow> classList_add (marker Avif v) body);
          b2 = (case verdict r Webp of None \<Rightarrow> b1 | Some v \<Rightarrow> classList_add (marker Webp v) b1)
      in (case verdict r Jxl of None \<Rightarrow> b2 | Some v \<Rightarrow> classList_add (marker Jxl v) b2))"
  by (simp add: defaultCallback_def marker_def Let_def split: option.splits)

lemma block_appends:
  "\<exists>added. (case v of None \<Rightarrow> body | Some b \<Rightarrow> classList_add (marker f b) body) = body @ added \<and>
     set added = {marker f b |b. v = Some b} - set body"
  using classList_add_appends [of "marker f (the v)" body] by (cases v) auto

lemma markers_split:
  "{marker f b |f b. verdict r f = Some b} =
     {marker Avif b |b. verdict r Avif = Some b} \<union> {marker Webp b |b. verdict r Webp = Some b} \<union>
     {marker Jxl b |b. verdict r Jxl = Some b}"
  by (auto simp: format_ex)

lemma defaultCallback_appends:
  "\<exists>added. defaultCallback r body = body @ added \<and>
     set added = {marker f b |f b. verdict r f = Some b} - set body"
proof -
  define b1 where "b1 = (case verdict r Avif of None \<Rightarrow> body | Some v \<Rightarrow> classList_add (marker Avif v) body)"
  define b2 where "b2 = (case verdict r Webp of None \<Rightarrow> b1 | Some v \<Rightarrow> classList_add (marker Webp v) b1)"
  define b3 where "b3 = (case verdict r Jxl of None \<Rightarrow> b2 | Some v \<Rightarrow> classList_add (marker Jxl v) b2)"
  from block_appends [where v = "verdict r Avif" and body = body and f = Avif] obtain a1 where
    a1: "b1 = body @ a1" "set a1 = {marker Avif b |b. verdict r Avif = Some b} - set body"
    unfolding b1_def by blast
  from block_appends [where v = "verdict r Webp" and body = b1 and f = Webp] obtain a2 where
    a2: "b2 = b1 @ a2" "set a2 = {marker Webp b |b. verdict r Webp = Some b} - set b1"
    unfolding b2_def by blast
  from block_appends [where v = "verdict r Jxl" and body = b2 and f = Jxl] obtain a3 where
    a3: "b3 = b2 @ a3" "set a3 = {marker Jxl b |b. verdict r Jxl = Some b} - set b2"
    unfolding b3_def by blast
  have "defaultCallback r body = b3"
    unfolding defaultCallback_marker b1_def b2_def b3_def Let_def ..
  then have "defaultCallback r body = body @ (a1 @ a2 @ a3)"
    by (simp add: a1(1) a2(1) a3(1))
  moreover have "set (a1 @ a2 @ a3) = {marker f b |f b. verdict r f = Some b} - set body"
    unfolding markers_split set_append a3(2) a2(2) a2(1) a1(1) set_append a1(2) by blast
  ultimately show ?thesis by blast
qed

subsection \<open>The example run\<close>

lemma example_run: "detect example_config 100 (\<lambda>f. 101) example_events = Some example_state"
  by code_simp

lemma example_enabled: "anyEnabled (fullConfigOf example_config)"
  by code_simp

section \<open>The claims\<close>

text \<open>
  C1: for every config, also the one with all three formats disabled, a call of
  \<^verbatim>\<open>detectImageFormats\<close> invokes the callback exactly once. The code does not do
  this when all three formats are disabled: each of the three blocks then runs the
  aggregator's check at once, every check finds nothing left to wait for, and the
  callback is invoked three times before the call returns.
\<close>

theorem all_disabled_fires_three_times:
  "calls (detectImageFormats
            (Some \<lparr>opt_avif = Some False, opt_webp = Some False, opt_jxl = Some False,
                   opt_delay = None\<rparr>) 0 (\<lambda>f. 0)) =
     [\<lparr>r_avif = None, r_webp = None, r_jxl = None, time = 0\<rparr>,
      \<lparr>r_avif = None, r_webp = None, r_jxl = None, time = 0\<rparr>,
      \<lparr>r_avif = None, r_webp = None, r_jxl = None, time = 0\<rparr>]"
  by (simp add: detectImageFormats_def fullConfigOf_def probe_def callbackIfEnd_def initial_def Let_def)

text \<open>
  C2: for every config with at least one format enabled, the callback is invoked
  exactly once over the whole run. At every point of a run the callback has been
  invoked once if no timer is waiting and no image is loading, and not at all
  otherwise (so neither the checks for skipped formats nor a settlement that leaves
  a probe in flight invoke it, and the settlement that ends the run does, with the
  result as it is then); and every run can be continued to its end, where the
  callback has been invoked once.
\<close>

theorem callback_exactly_once_when_enabled:
  assumes "anyEnabled (fullConfigOf config)"
    and "detect config start now evs = Some s"
  shows "calls s = (if finished s then [result s] else []) \<and>
         (\<exists>evs' s'. detect config start now (evs @ evs') = Some s' \<and> finished s' \<and>
            calls s' = [result s'])"
proof
  from once_detect [OF assms] show "calls s = (if finished s then [result s] else [])"
    by (simp add: once_def)
  from can_finish obtain evs' s' where
    r: "run (fullConfigOf config) start evs' s = Some s'" and f: "finished s'"
    by blast
  from assms(2) r have d: "detect config start now (evs @ evs') = Some s'"
    by (simp add: detect_def run_append)
  from once_detect [OF assms(1) d] f have "calls s' = [result s']"
    by (simp add: once_def)
  with d f show "\<exists>evs' s'. detect config start now (evs @ evs') = Some s' \<and> finished s' \<and>
            calls s' = [result s']"
    by blast
qed

theorem callback_exactly_once_when_enabled_witness:
  "anyEnabled (fullConfigOf example_config) \<and>
   detect example_config 100 (\<lambda>f. 101) example_events = Some example_state \<and>
   finished example_state \<and>
   calls example_state = [result example_state] \<and>
   (\<exists>s. detect example_config 100 (\<lambda>f. 101) (butlast example_events) = Some s \<and>
        \<not> finished s \<and> calls s = [])"
proof -
  let ?s = "\<lparr>result = \<lparr>r_avif = None, r_webp = None, r_jxl = Some False, time = 10\<rparr>,
             timers = [], images = [Avif], calls = [], measured = [1, 10]\<rparr>"
  from callback_exactly_once_when_enabled [OF example_enabled example_run]
  have "calls example_state = (if finished example_state then [result example_state] else [])" ..
  moreover have f: "finished example_state" by code_simp
  ultimately have c: "calls example_state = [result example_state]" by simp
  have p: "detect example_config 100 (\<lambda>f. 101) (butlast example_events) = Some ?s"
    by code_simp
  from callback_exactly_once_when_enabled [OF example_enabled p]
  have "calls ?s = (if finished ?s then [result ?s] else [])" ..
  moreover have n: "\<not> finished ?s" by (simp add: finished_def)
  ultimately have "calls ?s = []" by simp
  with p n have "\<exists>s. detect example_config 100 (\<lambda>f. 101) (butlast example_events) = Some s \<and>
        \<not> finished s \<and> calls s = []"
    by blast
  with example_enabled example_run f c show ?thesis by blast
qed

text \<open>
  C3: \<^verbatim>\<open>detectImageFormats\<close> never invokes the callback within the call itself, for
  any config, the one with all three formats disabled included. The code invokes it
  within the call when all three formats are disabled. What holds: the callback is
  not invoked within the call exactly when at least one format is enabled (it then
  runs after the call has returned); when all three are disabled it is invoked
  within the call.
\<close>

theorem callback_synchronous_iff_none_enabled:
  "(calls (detectImageFormats config start now) = []) = anyEnabled (fullConfigOf config)"
  by (rule calls_dispatch)

theorem callback_synchronous_iff_none_enabled_witness:
  "anyEnabled (fullConfigOf (Some \<lparr>opt_avif = Some False, opt_webp = Some False, opt_jxl = None,
                                     opt_delay = None\<rparr>)) \<and>
   calls (detectImageFormats (Some \<lparr>opt_avif = Some False, opt_webp = Some False, opt_jxl = None,
                                     opt_delay = None\<rparr>) 7 (\<lambda>f. 8)) = []"
  using callback_synchronous_iff_none_enabled
    [of "Some \<lparr>opt_avif = Some False, opt_webp = Some False, opt_jxl = None, opt_delay = None\<rparr>"
        7 "\<lambda>f. 8"]
  by (simp add: anyEnabled_def fullConfigOf_def)

text \<open>
  C3 as stated fails on the config with all three formats disabled: the callback
  has been invoked when the call returns.
\<close>

theorem callback_synchronous_when_all_disabled:
  "calls (detectImageFormats
            (Some \<lparr>opt_avif = Some False, opt_webp = Some False, opt_jxl = Some False,
                   opt_delay = Some 0\<rparr>) 0 (\<lambda>f. 0)) \<noteq> []"
  by code_simp

text \<open>
  C4: for every config and every format whose flag is true, the format's field is a
  definite boolean, not null, in the result the callback is invoked with.
\<close>

theorem enabled_fields_definite_at_callback:
  assumes "detect config start now evs = Some s"
    and "r \<in> set (calls s)"
    and "enabled (fullConfigOf config) f"
  shows "\<exists>b. verdict r f = Some b"
  using props_detect(1) [OF assms(1)] assms(2,3) by (auto simp: definite_def)

theorem enabled_fields_definite_at_callback_witness:
  "detect example_config 100 (\<lambda>f. 101) example_events = Some example_state \<and>
   example_result \<in> set (calls example_state) \<and>
   enabled (fullConfigOf example_config) Jxl \<and>
   (\<exists>b. verdict example_result Jxl = Some b)"
proof -
  have r: "example_result \<in> set (calls example_state)"
    by (simp add: example_state_def)
  have e: "enabled (fullConfigOf example_config) Jxl"
    by (simp add: example_config_def fullConfigOf_def)
  from enabled_fields_definite_at_callback [OF example_run r e] example_run r e
  show ?thesis by blast
qed

text \<open>
  C5: for every config and every format whose flag is false, no step of the run
  assigns the format's field: it is null in the result at every point of the run,
  and in every result the callback is invoked with.
\<close>

theorem disabled_fields_stay_null:
  assumes "detect config start now evs = Some s"
    and "\<not> enabled (fullConfigOf config) f"
  shows "verdict (result s) f = None \<and> (\<forall>r\<in>set (calls s). verdict r f = None)"
  using props_detect(2) [OF assms(1)] assms(2) by (simp add: untouched_def)

theorem disabled_fields_stay_null_witness:
  "detect example_config 100 (\<lambda>f. 101) example_events = Some example_state \<and>
   \<not> enabled (fullConfigOf example_config) Webp \<and>
   verdict (result example_state) Webp = None \<and>
   example_result \<in> set (calls example_state) \<and>
   verdict example_result Webp = None"
proof -
  have r: "example_result \<in> set (calls example_state)"
    by (simp add: example_state_def)
  have e: "\<not> enabled (fullConfigOf example_config) Webp"
    by (simp add: example_config_def fullConfigOf_def)
  from disabled_fields_stay_null [OF example_run e] r
  have "verdict (result example_state) Webp = None" "verdict example_result Webp = None"
    by blast+
  with example_run r e show ?thesis by blast
qed

text \<open>
  C6: within one run the time field never decreases from one check of the
  aggregator to the next, and after each check it is the maximum of the elapsed
  times measured at the checks so far. The second part fails when every
  measurement is negative (the clock read less than \<open>start\<close>): the field starts at
  0 and stays there. What holds: after each check the field is the maximum of 0
  and the elapsed times measured so far; each check appends its measurement and
  sets the field to the larger of its old value and the measurement, so the field
  never decreases and a smaller later measurement does not lower it.
\<close>

theorem time_is_running_maximum:
  assumes "detect config start now evs = Some s"
  shows "time (result s) = Max (set (0 # measured s)) \<and>
         (\<forall>es s'. run (fullConfigOf config) start es s = Some s' \<longrightarrow>
            time (result s) \<le> time (result s')) \<and>
         (\<forall>c t s0. measured (fst (callbackIfEnd c start t s0)) = measured s0 @ [t - start] \<and>
            time (result (fst (callbackIfEnd c start t s0))) = max (time (result s0)) (t - start))"
proof (intro conjI allI impI)
  from props_detect(4) [OF assms] show "time (result s) = Max (set (0 # measured s))"
    by (simp add: tracked_def)
  show "time (result s) \<le> time (result s')"
    if "run (fullConfigOf config) start es s = Some s'" for es s'
    using that by (rule time_run)
  show "measured (fst (callbackIfEnd c start t s0)) = measured s0 @ [t - start]" for c t s0
    by simp
  show "time (result (fst (callbackIfEnd c start t s0))) = max (time (result s0)) (t - start)"
    for c t s0
    by simp
qed

theorem time_is_running_maximum_witness:
  "detect example_config 100 (\<lambda>f. 101)
     [Timeout Jxl 105, Timeout Avif 106, Onerror Jxl 110, Onload Avif 108] =
   Some \<lparr>result = \<lparr>r_avif = Some True, r_webp = None, r_jxl = Some False, time = 10\<rparr>,
         timers = [], images = [],
         calls = [\<lparr>r_avif = Some True, r_webp = None, r_jxl = Some False, time = 10\<rparr>],
         measured = [1, 10, 8]\<rparr> \<and>
   Max (set (0 # [1, 10, 8])) = (10::int)"
proof -
  let ?s = "\<lparr>result = \<lparr>r_avif = Some True, r_webp = None, r_jxl = Some False, time = 10\<rparr>,
         timers = [], images = [],
         calls = [\<lparr>r_avif = Some True, r_webp = None, r_jxl = Some False, time = 10\<rparr>],
         measured = [1, 10, 8]\<rparr>"
  have h: "detect example_config 100 (\<lambda>f. 101)
     [Timeout Jxl 105, Timeout Avif 106, Onerror Jxl 110, Onload Avif 108] = Some ?s"
    by code_simp
  from time_is_running_maximum [OF h]
  have "time (result ?s) = Max (set (0 # measured ?s))" ..
  then have "Max (set (0 # [1, 10, 8])) = (10::int)" by simp
  with h show ?thesis by blast
qed

text \<open>
  C6 as stated fails when the clock reads 5 in the first check of a call that
  started at 10: the one measurement is -5 and the time field is 0.
\<close>

theorem time_below_maximum_counterexample:
  "measured (detectImageFormats
       (Some \<lparr>opt_avif = Some False, opt_webp = None, opt_jxl = None, opt_delay = None\<rparr>)
       10 (\<lambda>f. 5)) = [- 5] \<and>
   time (result (detectImageFormats
       (Some \<lparr>opt_avif = Some False, opt_webp = None, opt_jxl = None, opt_delay = None\<rparr>)
       10 (\<lambda>f. 5))) = 0 \<and>
   time (result (detectImageFormats
       (Some \<lparr>opt_avif = Some False, opt_webp = None, opt_jxl = None, opt_delay = None\<rparr>)
       10 (\<lambda>f. 5))) \<noteq>
   Max (set (measured (detectImageFormats
       (Some \<lparr>opt_avif = Some False, opt_webp = None, opt_jxl = None, opt_delay = None\<rparr>)
       10 (\<lambda>f. 5))))"
  by code_simp

text \<open>
  C7: a call without a config behaves as a call with the config
  \<^verbatim>\<open>{avif: true, webp: true, jxl: true, delay: 0}\<close>: the same state when the call
  returns (three timers of delay 0) and the same state after any events. A format
  field that is left out counts as enabled, a delay that is left out as 0.
\<close>

theorem no_config_is_all_enabled_no_delay:
  "detectImageFormats None start now =
     detectImageFormats (Some \<lparr>opt_avif = Some True, opt_webp = Some True, opt_jxl = Some True,
                              opt_delay = Some 0\<rparr>) start now \<and>
   detect None start now evs =
     detect (Some \<lparr>opt_avif = Some True, opt_webp = Some True, opt_jxl = Some True,
                   opt_delay = Some 0\<rparr>) start now evs \<and>
   timers (detectImageFormats None start now) = [(Avif, 0), (Webp, 0), (Jxl, 0)] \<and>
   fullConfigOf (Some \<lparr>opt_avif = a, opt_webp = w, opt_jxl = j, opt_delay = d\<rparr>) =
     \<lparr>avif = (a \<noteq> Some False), webp = (w \<noteq> Some False), jxl = (j \<noteq> Some False),
      delay = (case d of None \<Rightarrow> 0 | Some n \<Rightarrow> n)\<rparr>"
  by (auto simp: detect_def detectImageFormats_def fullConfigOf_def probe_def initial_def
      split: option.splits)

text \<open>
  C8: for every result the completion handler of \<^verbatim>\<open>detectImageFormatsDefault\<close>
  receives: the handler only appends to the body's class list, and what it appends
  are the class names \<^verbatim>\<open>has-<format>\<close> (field true) or \<^verbatim>\<open>no-<format>\<close> (field false)
  of the formats whose field is a boolean, as far as the list does not hold them
  yet. So for a format with a boolean field its class is in the list afterwards and
  the opposite class is there only if it was before; for a format whose field is
  null neither class is added.
\<close>

theorem default_handler_marks_definite_formats:
  "(\<exists>added. defaultCallback r body = body @ added \<and>
       set added = {marker f b |f b. verdict r f = Some b} - set body) \<and>
   (\<forall>f b. (verdict r f = Some b \<longrightarrow>
             marker f b \<in> set (defaultCallback r body) \<and>
             (marker f (\<not> b) \<in> set (defaultCallback r body)) = (marker f (\<not> b) \<in> set body)) \<and>
          (verdict r f = None \<longrightarrow>
             (marker f b \<in> set (defaultCallback r body)) = (marker f b \<in> set body)))"
proof -
  from defaultCallback_appends [of r body] obtain added where
    a: "defaultCallback r body = body @ added"
      "set added = {marker f b |f b. verdict r f = Some b} - set body"
    by blast
  then have s: "\<And>c. (c \<in> set (defaultCallback r body)) =
      (c \<in> set body \<or> (\<exists>g d. c = marker g d \<and> verdict r g = Some d))"
    by auto
  have "marker f b \<in> set (defaultCallback r body) \<and>
        (marker f (\<not> b) \<in> set (defaultCallback r body)) = (marker f (\<not> b) \<in> set body)"
    if "verdict r f = Some b" for f b
    using that by (simp add: s marker_inj)
  moreover have "(marker f b \<in> set (defaultCallback r body)) = (marker f b \<in> set body)"
    if "verdict r f = None" for f b
    using that by (simp add: s marker_inj)
  ultimately show ?thesis using a by blast
qed

theorem default_handler_marks_definite_formats_witness:
  "verdict \<lparr>r_avif = Some True, r_webp = Some False, r_jxl = None, time = 3\<rparr> Avif = Some True \<and>
   verdict \<lparr>r_avif = Some True, r_webp = Some False, r_jxl = None, time = 3\<rparr> Jxl = None \<and>
   marker Avif True \<in>
     set (defaultCallback \<lparr>r_avif = Some True, r_webp = Some False, r_jxl = None, time = 3\<rparr>
            [''page'']) \<and>
   marker Avif False \<notin>
     set (defaultCallback \<lparr>r_avif = Some True, r_webp = Some False, r_jxl = None, time = 3\<rparr>
            [''page'']) \<and>
   marker Jxl True \<notin>
     set (defaultCallback \<lparr>r_avif = Some True, r_webp = Some False, r_jxl = None, time = 3\<rparr>
            [''page'']) \<and>
   marker Avif True = ''has-avif'' \<and>
   defaultCallback \<lparr>r_avif = Some True, r_webp = Some False, r_jxl = None, time = 3\<rparr> [''page''] =
     [''page'', ''has-avif'', ''no-webp''] \<and>
   detectImageFormatsDefault 0 (\<lambda>f. 0)
     [Timeout Avif 0, Timeout Webp 1, Timeout Jxl 1, Onload Webp 2, Onload Jxl 2, Onload Avif 4] [] =
     Some [''has-avif'', ''has-webp'', ''has-jxl'']"
proof -
  let ?r = "\<lparr>r_avif = Some True, r_webp = Some False, r_jxl = None, time = 3\<rparr>"
  have m: "marker Avif True = ''has-avif''" "marker Avif False = ''no-avif''"
    "marker Jxl True = ''has-jxl''"
    by (simp_all add: marker_def)
  have v: "verdict ?r Avif = Some True" "verdict ?r Jxl = None"
    by simp_all
  have p: "marker Avif False \<notin> set [''page'']" "marker Jxl True \<notin> set [''page'']"
    by (simp_all add: m)
  from default_handler_marks_definite_formats [of ?r "[''page'']"]
  have a: "\<forall>f b. (verdict ?r f = Some b \<longrightarrow>
             marker f b \<in> set (defaultCallback ?r [''page'']) \<and>
             (marker f (\<not> b) \<in> set (defaultCallback ?r [''page''])) = (marker f (\<not> b) \<in> set [''page''])) \<and>
          (verdict ?r f = None \<longrightarrow>
             (marker f b \<in> set (defaultCallback ?r [''page''])) = (marker f b \<in> set [''page'']))"
    ..
  from a have "verdict ?r Avif = Some True \<longrightarrow>
             marker Avif True \<in> set (defaultCallback ?r [''page'']) \<and>
             (marker Avif (\<not> True) \<in> set (defaultCallback ?r [''page''])) =
             (marker Avif (\<not> True) \<in> set [''page''])"
    by blast
  with v(1) p(1) have c1: "marker Avif True \<in> set (defaultCallback ?r [''page''])"
    "marker Avif False \<notin> set (defaultCallback ?r [''page''])"
    by simp_all
  from a have "verdict ?r Jxl = None \<longrightarrow>
             (marker Jxl True \<in> set (defaultCallback ?r [''page''])) =
             (marker Jxl True \<in> set [''page''])"
    by blast
  with v(2) p(2) have c2: "marker Jxl True \<notin> set (defaultCallback ?r [''page''])"
    by simp
  have e1: "defaultCallback ?r [''page''] = [''page'', ''has-avif'', ''no-webp'']"
    by code_simp
  have e2: "detectImageFormatsDefault 0 (\<lambda>f. 0)
     [Timeout Avif 0, Timeout Webp 1, Timeout Jxl 1, Onload Webp 2, Onload Jxl 2, Onload Avif 4] [] =
     Some [''has-avif'', ''has-webp'', ''has-jxl'']"
    by code_simp
  from v c1 c2 m(1) e1 e2 show ?thesis by blast
qed



text \<open>
  C10: for every config with at least one format enabled, none of the checks made
  during the call for skipped formats invokes the callback: whichever of the three
  blocks makes the check, it returns false, because an enabled format's field is
  null throughout the call; the callback has not been invoked when the call
  returns, and afterwards only an event that settles an image (load or error) can
  invoke it, never a timer.
\<close>

theorem skip_checks_never_fire:
  assumes "anyEnabled (fullConfigOf config)"
  shows "let c = fullConfigOf config;
             s1 = probe c start now Avif initial;
             s2 = probe c start now Webp s1;
             s3 = probe c start now Jxl s2
         in \<not> snd (callbackIfEnd c start (now Avif) initial) \<and>
            \<not> snd (callbackIfEnd c start (now Webp) s1) \<and>
            \<not> snd (callbackIfEnd c start (now Jxl) s2) \<and>
            (\<exists>g. enabled c g \<and> verdict (result initial) g = None \<and>
                 verdict (result s1) g = None \<and> verdict (result s2) g = None) \<and>
            detectImageFormats config start now = s3 \<and> calls s3 = [] \<and>
            (\<forall>e s s'. step c start e s = Some s' \<and> calls s' \<noteq> calls s \<longrightarrow> is_settle e)"
proof -
  from assms obtain g where g: "enabled (fullConfigOf config) g"
    by (auto simp: anyEnabled_iff)
  have v: "verdict (result initial) g = None" by (cases g) (simp_all add: initial_def)
  have t: "\<And>e s s'. step (fullConfigOf config) start e s = Some s' \<Longrightarrow> calls s' \<noteq> calls s \<Longrightarrow> is_settle e"
    by (erule step_cases) simp_all
  from g v calls_dispatch [of config start now] assms t show ?thesis
    unfolding Let_def detectImageFormats_def
    by (auto simp: callbackIfEnd_fires)
qed

theorem skip_checks_never_fire_witness:
  "anyEnabled (fullConfigOf example_config) \<and>
   \<not> enabled (fullConfigOf example_config) Webp \<and>
   \<not> snd (callbackIfEnd (fullConfigOf example_config) 100 101
            (probe (fullConfigOf example_config) 100 (\<lambda>f. 101) Avif initial)) \<and>
   calls (detectImageFormats example_config 100 (\<lambda>f. 101)) = []"
proof -
  have e: "\<not> enabled (fullConfigOf example_config) Webp"
    by (simp add: example_config_def fullConfigOf_def)
  from skip_checks_never_fire [OF example_enabled, of 100 "\<lambda>f. 101"]
  have "\<not> snd (callbackIfEnd (fullConfigOf example_config) 100 101
            (probe (fullConfigOf example_config) 100 (\<lambda>f. 101) Avif initial))"
    "calls (detectImageFormats example_config 100 (\<lambda>f. 101)) = []"
    by (simp_all add: Let_def)
  with example_enabled e show ?thesis by blast
qed

end
